theory Spec2Isabelle
  imports Main
begin

section \<open>Strings\<close>

text \<open>
  A string of the program is modelled as a \<^typ>\<open>string\<close> whose characters are the
  code units U+0000 to U+00FF. On that range the white space of \<^verbatim>\<open>String.prototype.trim\<close>
  and of the regular expression class \<^verbatim>\<open>\s\<close> is the same set: tab, line feed,
  vertical tab, form feed, carriage return, space and the no-break space U+00A0.
\<close>

definition isWhiteSpace :: "char \<Rightarrow> bool" where
  "isWhiteSpace c =
     (let n = (of_char c :: nat)
      in n = 9 \<or> n = 10 \<or> n = 11 \<or> n = 12 \<or> n = 13 \<or> n = 32 \<or> n = 160)"

definition trim :: "string \<Rightarrow> string" where
  "trim s = rev (dropWhile isWhiteSpace (rev (dropWhile isWhiteSpace s)))"

text \<open>
  \<^verbatim>\<open>toLowerCase\<close> on the same range: the letters A to Z and the letters U+00C0 to
  U+00DE, the multiplication sign U+00D7 apart, move up by 32; nothing else changes.
\<close>

definition lowerChar :: "char \<Rightarrow> char" where
  "lowerChar c =
     (let n = (of_char c :: nat)
      in if (65 \<le> n \<and> n \<le> 90) \<or> (192 \<le> n \<and> n \<le> 222 \<and> n \<noteq> 215)
         then char_of (n + 32) else c)"

definition toLowerCase :: "string \<Rightarrow> string" where
  "toLowerCase s = map lowerChar s"

fun startsWith :: "string \<Rightarrow> string \<Rightarrow> bool" where
  "startsWith s [] = True"
| "startsWith [] (y # ys) = False"
| "startsWith (x # xs) (y # ys) = (x = y \<and> startsWith xs ys)"

text \<open>\<^verbatim>\<open>s.includes(t)\<close>: \<open>t\<close> occurs in \<open>s\<close> at some position.\<close>

fun str_includes :: "string \<Rightarrow> string \<Rightarrow> bool" where
  "str_includes [] t = (t = [])"
| "str_includes (x # xs) t = (startsWith (x # xs) t \<or> str_includes xs t)"

text \<open>
  A value tested by \<^verbatim>\<open>if (v)\<close> or \<^verbatim>\<open>!v\<close> where \<open>v\<close> is a string or null:
  null and the empty string are falsy.
\<close>

definition truthy :: "string option \<Rightarrow> bool" where
  "truthy v = (case v of None \<Rightarrow> False | Some s \<Rightarrow> s \<noteq> [])"

section \<open>Validator\<close>

text \<open>
  \<^verbatim>\<open>EMAIL_REGEX = /^[^\s@]+@[^\s@]+\.[^\s@]+$/\<close>. The pattern is a sequence of
  literal characters and of the repeated class \<^verbatim>\<open>[^\s@]+\<close>; \<open>re_match\<close> decides
  whether the whole string matches the whole sequence, trying every length of each
  repetition.
\<close>

datatype re_item = Lit char | NotSpaceAtPlus

definition EMAIL_REGEX :: "re_item list" where
  "EMAIL_REGEX = [NotSpaceAtPlus, Lit CHR ''@'', NotSpaceAtPlus, Lit CHR ''.'', NotSpaceAtPlus]"

fun re_match :: "re_item list \<Rightarrow> string \<Rightarrow> bool" where
  "re_match [] s = (s = [])"
| "re_match (Lit c # r) [] = False"
| "re_match (Lit c # r) (x # xs) = (x = c \<and> re_match r xs)"
| "re_match (NotSpaceAtPlus # r) [] = False"
| "re_match (NotSpaceAtPlus # r) (x # xs) =
     (\<not> isWhiteSpace x \<and> x \<noteq> CHR ''@'' \<and> (re_match (NotSpaceAtPlus # r) xs \<or> re_match r xs))"

definition isValidEmail :: "string \<Rightarrow> bool" where
  "isValidEmail email = re_match EMAIL_REGEX (trim email)"

section \<open>Errors\<close>

text \<open>
  The two rejections the variants make themselves, and the \<^verbatim>\<open>TypeError\<close> a method call
  on a value that has no such method throws. Each variant runs its work inside
  \<^verbatim>\<open>try { ... } catch (error) { reject(error) }\<close>, so an error thrown there is the
  rejection of the call: \<open>Inl\<close> of that error.
\<close>

datatype error = CSVEmpty | TSVEmpty | TypeError

section \<open>Rows\<close>

text \<open>
  A cell holds a string, an array of strings (the cells of a line beyond the width of the
  header, which the decoder stores under \<^verbatim>\<open>__parsed_extra\<close>) or some other value that is
  not a string (\<open>NonStr\<close>). A row is the list of the object's own properties in the order
  of their creation, the header order for a decoded row; \<^verbatim>\<open>row[column]\<close> is
  \<open>map_of row column\<close>, and \<open>None\<close> stands for \<^verbatim>\<open>undefined\<close>. A property the object inherits
  is not a string, so the program reads it as it reads an absent one. The keys of an
  object are distinct; no fact below needs it.
\<close>

datatype cell = Str string | Arr "string list" | NonStr

type_synonym ParsedRow = "(string \<times> cell) list"

text \<open>
  \<^verbatim>\<open>Object.values(row)\<close> enumerates the properties whose key is an array index (the
  decimal numeral, with no leading zero, of a number below \<open>2^32 - 1\<close>) first, in ascending
  order of the number, and then the other properties in the order of their creation.
\<close>

definition isDigit :: "char \<Rightarrow> bool" where
  "isDigit c = (48 \<le> (of_char c :: int) \<and> (of_char c :: int) \<le> 57)"

definition numericValue :: "string \<Rightarrow> int" where
  "numericValue s = fold (\<lambda>c n. 10 * n + (of_char c - 48)) s 0"

definition isArrayIndex :: "string \<Rightarrow> bool" where
  "isArrayIndex s =
     (case s of
        [] \<Rightarrow> False
      | c # cs \<Rightarrow> list_all isDigit s \<and> (c \<noteq> CHR ''0'' \<or> cs = []) \<and> numericValue s < 4294967295)"

definition objectValues :: "ParsedRow \<Rightarrow> cell list" where
  "objectValues row =
     map snd (sort_key (\<lambda>p. numericValue (fst p)) (filter (\<lambda>p. isArrayIndex (fst p)) row)) @
     map snd (filter (\<lambda>p. \<not> isArrayIndex (fst p)) row)"

text \<open>
  \<^verbatim>\<open>typeof rawValue === 'string'\<close>, and the call \<^verbatim>\<open>rawValue.trim()\<close>, which throws on
  \<^verbatim>\<open>undefined\<close> and on a value that is not a string.
\<close>

definition typeofString :: "cell option \<Rightarrow> bool" where
  "typeofString rawValue = (case rawValue of Some (Str s) \<Rightarrow> True | _ \<Rightarrow> False)"

definition callTrim :: "cell option \<Rightarrow> error + string" where
  "callTrim rawValue = (case rawValue of Some (Str s) \<Rightarrow> Inr (trim s) | _ \<Rightarrow> Inl TypeError)"

text \<open>\<^verbatim>\<open>typeof rawValue === 'string' ? rawValue.trim() : ''\<close>\<close>

definition trimmedValue :: "cell option \<Rightarrow> error + string" where
  "trimmedValue rawValue = (if typeofString rawValue then callTrim rawValue else Inr [])"

section \<open>Column detector\<close>

fun countLoop :: "string \<Rightarrow> ParsedRow list \<Rightarrow> nat \<Rightarrow> error + nat" where
  "countLoop column [] count = Inr count"
| "countLoop column (row # data) count =
     (case trimmedValue (map_of row column) of
        Inl e \<Rightarrow> Inl e
      | Inr value \<Rightarrow>
          if value \<noteq> [] \<and> isValidEmail value
          then countLoop column data (count + 1)
          else countLoop column data count)"

definition countEmailLikeValues :: "string \<Rightarrow> ParsedRow list \<Rightarrow> error + nat" where
  "countEmailLikeValues column data = countLoop column data 0"

text \<open>The scan of tier 3: the state is \<open>(bestColumn, maxEmailCount)\<close>.\<close>

fun scoreLoop ::
  "string list \<Rightarrow> ParsedRow list \<Rightarrow> string option \<times> nat \<Rightarrow> error + string option \<times> nat" where
  "scoreLoop [] data st = Inr st"
| "scoreLoop (header # headers) data (bestColumn, maxEmailCount) =
     (case countEmailLikeValues header data of
        Inl e \<Rightarrow> Inl e
      | Inr emailCount \<Rightarrow>
          if emailCount > maxEmailCount
          then scoreLoop headers data (Some header, emailCount)
          else scoreLoop headers data (bestColumn, maxEmailCount))"

definition isEmailValueHeader :: "string \<Rightarrow> bool" where
  "isEmailValueHeader h =
     (str_includes (toLowerCase h) ''e-mail'' \<and> str_includes (toLowerCase h) ''value'')"

definition detectEmailColumn :: "string list \<Rightarrow> ParsedRow list \<Rightarrow> error + string option" where
  "detectEmailColumn headers data =
     (let exactMatch = find (\<lambda>h. h = ''E-mail 1 - Value'') headers
      in if truthy exactMatch then Inr exactMatch
         else
           let emailValueMatch = find isEmailValueHeader headers
           in if truthy emailValueMatch then Inr emailValueMatch
              else
                (case scoreLoop headers data (None, 0) of
                   Inl e \<Rightarrow> Inl e
                 | Inr (bestColumn, maxEmailCount) \<Rightarrow>
                     if truthy bestColumn \<and> maxEmailCount > 0 then Inr bestColumn else Inr None))"

section \<open>Extraction\<close>

fun emailsLoop :: "string \<Rightarrow> ParsedRow list \<Rightarrow> string list \<Rightarrow> error + string list" where
  "emailsLoop column [] emails = Inr emails"
| "emailsLoop column (row # data) emails =
     (case trimmedValue (map_of row column) of
        Inl e \<Rightarrow> Inl e
      | Inr value \<Rightarrow>
          if value \<noteq> [] \<and> isValidEmail value
          then emailsLoop column data (emails @ [toLowerCase value])
          else emailsLoop column data emails)"

definition extractEmailsFromColumn :: "string option \<Rightarrow> ParsedRow list \<Rightarrow> error + string list" where
  "extractEmailsFromColumn column data =
     (case column of
        None \<Rightarrow> Inr []
      | Some c \<Rightarrow> if \<not> truthy (Some c) then Inr [] else emailsLoop c data [])"

fun valuesLoop :: "string \<Rightarrow> ParsedRow list \<Rightarrow> string list \<Rightarrow> error + string list" where
  "valuesLoop column [] values = Inr values"
| "valuesLoop column (row # data) values =
     (case trimmedValue (map_of row column) of
        Inl e \<Rightarrow> Inl e
      | Inr value \<Rightarrow>
          if value \<noteq> []
          then valuesLoop column data (values @ [value])
          else valuesLoop column data values)"

definition extractRawValuesFromColumn :: "string option \<Rightarrow> ParsedRow list \<Rightarrow> error + string list" where
  "extractRawValuesFromColumn column data =
     (case column of
        None \<Rightarrow> Inr []
      | Some c \<Rightarrow> if \<not> truthy (Some c) then Inr [] else valuesLoop c data [])"

text \<open>The fallback scan: the state is \<open>(seen, emails)\<close>.\<close>

fun cellsLoop ::
  "cell list \<Rightarrow> string set \<times> string list \<Rightarrow> error + string set \<times> string list" where
  "cellsLoop [] st = Inr st"
| "cellsLoop (value # values) (seen, emails) =
     (case trimmedValue (Some value) of
        Inl e \<Rightarrow> Inl e
      | Inr trimmed \<Rightarrow>
          if trimmed \<noteq> [] \<and> isValidEmail trimmed
          then
            let lower = toLowerCase trimmed
            in if lower \<notin> seen
               then cellsLoop values (insert lower seen, emails @ [lower])
               else cellsLoop values (seen, emails)
          else cellsLoop values (seen, emails))"

fun rowsLoop ::
  "ParsedRow list \<Rightarrow> string set \<times> string list \<Rightarrow> error + string set \<times> string list" where
  "rowsLoop [] st = Inr st"
| "rowsLoop (row # data) st =
     (case cellsLoop (objectValues row) st of
        Inl e \<Rightarrow> Inl e
      | Inr st1 \<Rightarrow> rowsLoop data st1)"

definition extractEmailsFromAllCells :: "ParsedRow list \<Rightarrow> error + string list" where
  "extractEmailsFromAllCells data =
     (case rowsLoop data ({}, []) of Inl e \<Rightarrow> Inl e | Inr (seen, emails) \<Rightarrow> Inr emails)"

section \<open>Extraction pipeline\<close>

text \<open>
  What both variants do between the test for an empty table and \<^verbatim>\<open>resolve\<close>. First the
  detection and the raw values: in column mode the source calls
  \<^verbatim>\<open>extractRawValuesFromColumn\<close> and then \<^verbatim>\<open>extractEmailsFromColumn\<close>, whose value
  nothing reads afterwards; in fallback mode the raw values are a copy of the emails of
  the scan. An error thrown by any of the calls ends the work.
\<close>

definition gather :: "string list \<Rightarrow> ParsedRow list \<Rightarrow> error + string option \<times> string list" where
  "gather headers data =
     (case detectEmailColumn headers data of
        Inl e \<Rightarrow> Inl e
      | Inr detectedColumn \<Rightarrow>
          if truthy detectedColumn
          then
            (case extractRawValuesFromColumn detectedColumn data of
               Inl e \<Rightarrow> Inl e
             | Inr rawValues \<Rightarrow>
                 (case extractEmailsFromColumn detectedColumn data of
                    Inl e \<Rightarrow> Inl e
                  | Inr emails \<Rightarrow> Inr (detectedColumn, rawValues)))
          else
            (case extractEmailsFromAllCells data of
               Inl e \<Rightarrow> Inl e
             | Inr emails \<Rightarrow> Inr (detectedColumn, emails)))"

record Stats =
  total :: nat
  valid :: nat
  invalid :: nat
  duplicates :: nat
  empty :: nat

record EmailExtractionResult =
  emails :: "string list"
  detectedColumn :: "string option"
  stats :: Stats

text \<open>An absent option is \<open>None\<close>; the omitted argument is the object with both absent.\<close>

record options =
  removeDuplicates :: "bool option"
  removeInvalid :: "bool option"

definition omitted :: options where
  "omitted = \<lparr>removeDuplicates = None, removeInvalid = None\<rparr>"

record loop_state =
  seen :: "string set"
  processed :: "string list"
  validCount :: nat
  invalidCount :: nat
  duplicatesCount :: nat
  emptyCount :: nat

definition initial :: loop_state where
  "initial = \<lparr>seen = {}, processed = [], validCount = 0, invalidCount = 0,
              duplicatesCount = 0, emptyCount = 0\<rparr>"

text \<open>
  The loop over the raw values, the same text in both variants; \<open>rd\<close> and \<open>ri\<close> are the
  truth values of the two conditions the variant tests (\<^verbatim>\<open>removeDuplicates\<close> and
  \<^verbatim>\<open>removeInvalid\<close> in the CSV variant, \<^verbatim>\<open>options.removeDuplicates\<close> and
  \<^verbatim>\<open>options.removeInvalid\<close> in the TSV variant). The raw values are strings, so the
  calls \<^verbatim>\<open>rawValue.trim().toLowerCase()\<close> cannot throw.
\<close>

fun statsLoop :: "bool \<Rightarrow> bool \<Rightarrow> string list \<Rightarrow> loop_state \<Rightarrow> loop_state" where
  "statsLoop rd ri [] st = st"
| "statsLoop rd ri (rawValue # rawValues) st =
     (let trimmed = toLowerCase (trim rawValue)
      in if trimmed = []
         then statsLoop rd ri rawValues (st\<lparr>emptyCount := emptyCount st + 1\<rparr>)
         else if \<not> isValidEmail trimmed
         then
           let st1 = st\<lparr>invalidCount := invalidCount st + 1\<rparr>
           in if \<not> ri
              then
                if \<not> rd \<or> trimmed \<notin> seen st1
                then statsLoop rd ri rawValues
                       (st1\<lparr>seen := insert trimmed (seen st1),
                            processed := processed st1 @ [trimmed],
                            validCount := validCount st1 + 1\<rparr>)
                else statsLoop rd ri rawValues (st1\<lparr>duplicatesCount := duplicatesCount st1 + 1\<rparr>)
              else statsLoop rd ri rawValues st1
         else if rd \<and> trimmed \<in> seen st
         then statsLoop rd ri rawValues (st\<lparr>duplicatesCount := duplicatesCount st + 1\<rparr>)
         else statsLoop rd ri rawValues
                (st\<lparr>seen := insert trimmed (seen st),
                    processed := processed st @ [trimmed],
                    validCount := validCount st + 1\<rparr>))"

text \<open>Then the loop over the raw values and the result.\<close>

definition runExtraction ::
  "bool \<Rightarrow> bool \<Rightarrow> string list \<Rightarrow> ParsedRow list \<Rightarrow> error + EmailExtractionResult" where
  "runExtraction rd ri headers data =
     (case gather headers data of
        Inl e \<Rightarrow> Inl e
      | Inr gathered \<Rightarrow>
          let (detectedColumn, rawValues) = gathered;
              totalBeforeProcessing = length rawValues;
              st = statsLoop rd ri rawValues initial
          in Inr \<lparr>emails = processed st,
                  detectedColumn = detectedColumn,
                  stats = \<lparr>total = totalBeforeProcessing,
                           valid = length (processed st),
                           invalid = invalidCount st,
                           duplicates = duplicatesCount st,
                           empty = emptyCount st\<rparr>\<rparr>)"

text \<open>
  The CSV variant destructures its options with defaults:
  \<^verbatim>\<open>const { removeDuplicates = true, removeInvalid = true } = options\<close>.
\<close>

definition withDefault :: "bool \<Rightarrow> bool option \<Rightarrow> bool" where
  "withDefault d v = (case v of None \<Rightarrow> d | Some b \<Rightarrow> b)"

definition parseCSVAndExtractEmails ::
  "string list \<Rightarrow> ParsedRow list \<Rightarrow> options \<Rightarrow> error + EmailExtractionResult" where
  "parseCSVAndExtractEmails headers data opts =
     (let rd = withDefault True (removeDuplicates opts);
          ri = withDefault True (removeInvalid opts)
      in if length data = 0 then Inl CSVEmpty
         else runExtraction rd ri headers data)"

text \<open>
  The TSV variant reads \<^verbatim>\<open>options.removeDuplicates\<close> and \<^verbatim>\<open>options.removeInvalid\<close>
  where it tests them: an absent option is \<^verbatim>\<open>undefined\<close>, which is falsy.
\<close>

definition optTruthy :: "bool option \<Rightarrow> bool" where
  "optTruthy v = (case v of None \<Rightarrow> False | Some b \<Rightarrow> b)"

definition parseTSVAndExtractEmails ::
  "string list \<Rightarrow> ParsedRow list \<Rightarrow> options \<Rightarrow> error + EmailExtractionResult" where
  "parseTSVAndExtractEmails headers data opts =
     (if length data = 0 then Inl TSVEmpty
      else runExtraction (optTruthy (removeDuplicates opts)) (optTruthy (removeInvalid opts))
             headers data)"

section \<open>Notions of the specification\<close>

text \<open>The normalized form of a value: trimmed, then lowercased.\<close>

definition normalized :: "string \<Rightarrow> string" where
  "normalized v = toLowerCase (trim v)"

text \<open>Deduplication that keeps the first occurrence of every element, in order.\<close>

fun dedupFirst :: "'a list \<Rightarrow> 'a list" where
  "dedupFirst [] = []"
| "dedupFirst (x # xs) = x # removeAll x (dedupFirst xs)"

text \<open>
  The text of a cell: the string trimmed, and the empty string for an absent cell and for
  a value that is not a string.
\<close>

definition cellText :: "cell option \<Rightarrow> string" where
  "cellText v = (case v of Some (Str s) \<Rightarrow> trim s | _ \<Rightarrow> [])"

text \<open>The score of a column: the number of rows whose cell in it is a valid email.\<close>

definition score :: "string \<Rightarrow> ParsedRow list \<Rightarrow> nat" where
  "score column data = length (filter (\<lambda>row. isValidEmail (cellText (map_of row column))) data)"

text \<open>The non-empty trimmed cells of a column, in row order.\<close>

definition columnValues :: "string \<Rightarrow> ParsedRow list \<Rightarrow> string list" where
  "columnValues column data =
     filter (\<lambda>v. v \<noteq> []) (map (\<lambda>row. cellText (map_of row column)) data)"

text \<open>
  The texts of the property values of the rows, row by row, each row in the order of
  \<^verbatim>\<open>Object.values\<close>.
\<close>

definition allCells :: "ParsedRow list \<Rightarrow> string list" where
  "allCells data = map (\<lambda>value. cellText (Some value)) (concat (map objectValues data))"

text \<open>The texts of the cells of the table row by row, each row in header order.\<close>

definition cellsByHeader :: "string list \<Rightarrow> ParsedRow list \<Rightarrow> string list" where
  "cellsByHeader headers data =
     concat (map (\<lambda>row. map (\<lambda>h. cellText (map_of row h)) headers) data)"

text \<open>
  The raw-values sequence of the specification: in column mode the non-empty trimmed
  cells of the detected column; in fallback mode the valid emails among the cells of the
  table, lowercased and deduplicated.
\<close>

definition rawValuesOf :: "string option \<Rightarrow> ParsedRow list \<Rightarrow> string list" where
  "rawValuesOf column data =
     (case column of
        Some c \<Rightarrow> columnValues c data
      | None \<Rightarrow> dedupFirst (map toLowerCase (filter isValidEmail (allCells data))))"

text \<open>Tier 3 of the detection is reached when no header matches tier 1 or tier 2.\<close>

definition tier3 :: "string list \<Rightarrow> bool" where
  "tier3 headers =
     (''E-mail 1 - Value'' \<notin> set headers \<and> list_all (\<lambda>h. \<not> isEmailValueHeader h) headers)"

section \<open>Facts about strings and the validator\<close>

lemma ws_lower [simp]: "isWhiteSpace (lowerChar c) = isWhiteSpace c"
  by (auto simp: isWhiteSpace_def lowerChar_def Let_def)

lemma lower_idem [simp]: "lowerChar (lowerChar c) = lowerChar c"
  by (auto simp: lowerChar_def Let_def)

lemma trim_lower: "trim (toLowerCase s) = toLowerCase (trim s)"
  by (simp add: trim_def toLowerCase_def dropWhile_map rev_map comp_def)

lemma lower_eq_at [simp]: "(lowerChar c = CHR ''@'') = (c = CHR ''@'')"
proof -
  have "(of_char (lowerChar c) = (64::nat)) = (of_char c = (64::nat))"
    by (auto simp: lowerChar_def Let_def)
  moreover have "of_char CHR ''@'' = (64::nat)" by simp
  ultimately show ?thesis by (metis of_char_eq_iff)
qed

lemma lower_eq_dot [simp]: "(lowerChar c = CHR ''.'') = (c = CHR ''.'')"
proof -
  have "(of_char (lowerChar c) = (46::nat)) = (of_char c = (46::nat))"
    by (auto simp: lowerChar_def Let_def)
  moreover have "of_char CHR ''.'' = (46::nat)" by simp
  ultimately show ?thesis by (metis of_char_eq_iff)
qed

lemma dropWhile_no_head: "xs = [] \<or> \<not> P (hd xs) \<Longrightarrow> dropWhile P xs = xs"
  by (cases xs) auto

lemma trim_idem [simp]: "trim (trim s) = trim s"
proof -
  define t where "t = dropWhile isWhiteSpace s"
  define u where "u = dropWhile isWhiteSpace (rev t)"
  have tr: "trim s = rev u" by (simp add: trim_def t_def u_def)
  have "dropWhile isWhiteSpace (rev u) = rev u"
  proof (cases "u = []")
    case True then show ?thesis by simp
  next
    case False
    have "rev t = takeWhile isWhiteSpace (rev t) @ u" by (simp add: u_def)
    then have "t = rev u @ rev (takeWhile isWhiteSpace (rev t))"
      by (metis rev_append rev_rev_ident)
    with False have "hd (rev u) = hd t" by (metis hd_append2 rev_is_Nil_conv)
    moreover have "t \<noteq> []" using False u_def by auto
    then have "\<not> isWhiteSpace (hd t)" unfolding t_def by (rule hd_dropWhile)
    ultimately show ?thesis by (intro dropWhile_no_head) simp
  qed
  moreover have "dropWhile isWhiteSpace u = u" by (simp add: u_def)
  ultimately show ?thesis by (simp add: trim_def tr[unfolded trim_def])
qed

lemma re_match_lower:
  "(\<And>c x. Lit c \<in> set r \<Longrightarrow> (lowerChar x = c) = (x = c)) \<Longrightarrow>
   re_match r (toLowerCase s) = re_match r s"
proof (induction r s rule: re_match.induct)
  case (1 s)
  then show ?case by (simp add: toLowerCase_def)
next
  case (2 c r)
  then show ?case by (simp add: toLowerCase_def)
next
  case (3 c r x xs)
  then show ?case by (simp add: toLowerCase_def)
next
  case (4 r)
  then show ?case by (simp add: toLowerCase_def)
next
  case (5 r x xs)
  then show ?case by (simp add: toLowerCase_def)
qed

lemma isValidEmail_lower [simp]: "isValidEmail (toLowerCase s) = isValidEmail s"
  unfolding isValidEmail_def trim_lower
  by (rule re_match_lower) (auto simp: EMAIL_REGEX_def)

lemma isValidEmail_trim [simp]: "isValidEmail (trim s) = isValidEmail s"
  by (simp add: isValidEmail_def)

lemma isValidEmail_nonempty: "isValidEmail s \<Longrightarrow> trim s \<noteq> []"
  by (auto simp: isValidEmail_def EMAIL_REGEX_def)

lemma not_isValidEmail_Nil [simp]: "\<not> isValidEmail []"
  by (simp add: isValidEmail_def EMAIL_REGEX_def trim_def)

lemma toLowerCase_idem [simp]: "toLowerCase (toLowerCase s) = toLowerCase s"
  by (simp add: toLowerCase_def)

lemma toLowerCase_Nil [simp]: "(toLowerCase s = []) = (s = [])"
  by (simp add: toLowerCase_def)

lemma trim_Nil [simp]: "trim [] = []"
  by (simp add: trim_def)

section \<open>Facts about first-occurrence deduplication\<close>

lemma set_dedupFirst [simp]: "set (dedupFirst xs) = set xs"
  by (induction xs) auto

lemma distinct_dedupFirst [simp]: "distinct (dedupFirst xs)"
  by (induction xs) (auto simp: distinct_removeAll)

lemma dedupFirst_distinct: "distinct xs \<Longrightarrow> dedupFirst xs = xs"
  by (induction xs) auto

lemma filter_notin_removeAll:
  "filter (\<lambda>y. y \<notin> S) (removeAll x ys) = filter (\<lambda>y. y \<notin> insert x S) ys"
  by (induction ys) auto

section \<open>Facts about the loop over the raw values\<close>

lemma isValidEmail_normalized [simp]: "isValidEmail (normalized v) = isValidEmail v"
  by (simp add: normalized_def)

lemma normalized_Nil_invalid: "normalized v = [] \<Longrightarrow> \<not> isValidEmail v"
  using isValidEmail_nonempty [of v] by (auto simp: normalized_def)

lemma statsLoop_emptyCount:
  "emptyCount (statsLoop rd ri raws st) =
     emptyCount st + length (filter (\<lambda>v. normalized v = []) raws)"
  by (cases rd; cases ri; simp; induction raws arbitrary: st; simp add: Let_def normalized_def)

lemma statsLoop_invalidCount:
  "invalidCount (statsLoop rd ri raws st) =
     invalidCount st + length (filter (\<lambda>v. normalized v \<noteq> [] \<and> \<not> isValidEmail v) raws)"
  by (cases rd; cases ri; simp; induction raws arbitrary: st; simp add: Let_def normalized_def)

text \<open>The values the loop does not skip before its duplicate check.\<close>

lemma statsLoop_processed_all:
  "processed (statsLoop False ri raws st) =
     processed st @
       map normalized (filter (\<lambda>v. normalized v \<noteq> [] \<and> (isValidEmail v \<or> \<not> ri)) raws)"
  by (cases ri; simp; induction raws arbitrary: st; simp add: Let_def normalized_def)

lemma statsLoop_processed_dedup:
  "processed (statsLoop True ri raws st) =
     processed st @
       filter (\<lambda>y. y \<notin> seen st)
         (dedupFirst (map normalized
            (filter (\<lambda>v. normalized v \<noteq> [] \<and> (isValidEmail v \<or> \<not> ri)) raws)))"
  by (cases ri; simp; induction raws arbitrary: st;
      simp add: Let_def normalized_def filter_notin_removeAll insert_absorb)

lemma statsLoop_duplicatesCount:
  "duplicatesCount (statsLoop rd ri raws st) + length (processed (statsLoop rd ri raws st)) =
     duplicatesCount st + length (processed st) +
       length (filter (\<lambda>v. normalized v \<noteq> [] \<and> (isValidEmail v \<or> \<not> ri)) raws)"
  by (cases rd; cases ri; simp; induction raws arbitrary: st; simp add: Let_def normalized_def)

section \<open>Facts about reading a cell\<close>

text \<open>The test of the type comes before the call, so the call never throws.\<close>

lemma trimmedValue_eq: "trimmedValue v = Inr (cellText v)"
  by (simp add: trimmedValue_def typeofString_def callTrim_def cellText_def
      split: option.splits cell.splits)

lemma cellText_trim [simp]: "trim (cellText v) = cellText v"
  by (simp add: cellText_def split: option.splits cell.splits)

section \<open>Facts about the loops over a column\<close>

lemma countLoop_eq: "countLoop column data n = Inr (n + score column data)"
  by (induction data arbitrary: n) (auto simp: trimmedValue_eq score_def)

lemma countEmailLikeValues_eq: "countEmailLikeValues column data = Inr (score column data)"
  by (simp add: countEmailLikeValues_def countLoop_eq)

lemma valuesLoop_eq: "valuesLoop column data acc = Inr (acc @ columnValues column data)"
  by (induction data arbitrary: acc) (auto simp: trimmedValue_eq columnValues_def)

lemma emailsLoop_eq:
  "emailsLoop column data acc =
     Inr (acc @ map toLowerCase (filter isValidEmail (map (\<lambda>row. cellText (map_of row column)) data)))"
  by (induction data arbitrary: acc) (auto simp: trimmedValue_eq)

section \<open>Facts about the column detector\<close>

lemma scoreLoop_keep:
  "\<forall>g\<in>set headers. score g data \<le> m \<Longrightarrow> scoreLoop headers data (b, m) = Inr (b, m)"
  by (induction headers) (auto simp: countEmailLikeValues_eq)

lemma scoreLoop_first_max:
  "\<forall>g\<in>set pre. score g data < score h data \<Longrightarrow>
   \<forall>g\<in>set post. score g data \<le> score h data \<Longrightarrow>
   m < score h data \<Longrightarrow>
   scoreLoop (pre @ h # post) data (b, m) = Inr (Some h, score h data)"
proof (induction pre arbitrary: b m)
  case Nil
  then show ?case by (simp add: countEmailLikeValues_eq scoreLoop_keep)
next
  case (Cons g pre)
  then show ?case by (simp add: countEmailLikeValues_eq)
qed

lemma scoreLoop_total: "\<exists>st1. scoreLoop headers data st = Inr st1"
proof (induction headers arbitrary: st)
  case Nil
  then show ?case by simp
next
  case (Cons h headers)
  obtain b m where st: "st = (b, m)" by (cases st)
  show ?case unfolding st using Cons by (simp add: countEmailLikeValues_eq)
qed

lemma find_exact:
  "find (\<lambda>h. h = c) headers = (if c \<in> set headers then Some c else None)"
  by (induction headers) auto

lemma detect_tier3:
  "tier3 headers \<Longrightarrow>
   detectEmailColumn headers data =
     (case scoreLoop headers data (None, 0) of
        Inl e \<Rightarrow> Inl e
      | Inr (bestColumn, maxEmailCount) \<Rightarrow>
          if truthy bestColumn \<and> maxEmailCount > 0 then Inr bestColumn else Inr None)"
proof -
  assume t: "tier3 headers"
  then have "find isEmailValueHeader headers = None"
    by (simp add: tier3_def find_None_iff list_all_iff)
  with t show ?thesis
    by (simp add: detectEmailColumn_def find_exact tier3_def truthy_def)
qed

lemma detectEmailColumn_total: "\<exists>col. detectEmailColumn headers data = Inr col"
  using scoreLoop_total [of headers data "(None, 0)"]
  by (auto simp: detectEmailColumn_def Let_def)

lemma detectEmailColumn_not_empty: "detectEmailColumn headers data \<noteq> Inr (Some [])"
  by (auto simp: detectEmailColumn_def Let_def truthy_def
      split: prod.splits if_splits sum.splits)

section \<open>Facts about the order of the property values\<close>

lemma set_objectValues: "set (objectValues row) = snd ` set row"
  by (auto simp: objectValues_def)

lemma objectValues_no_index:
  "\<forall>p\<in>set row. \<not> isArrayIndex (fst p) \<Longrightarrow> objectValues row = map snd row"
proof -
  assume a: "\<forall>p\<in>set row. \<not> isArrayIndex (fst p)"
  then have "filter (\<lambda>p. isArrayIndex (fst p)) row = []"
    by (simp add: filter_empty_conv)
  moreover from a have "filter (\<lambda>p. \<not> isArrayIndex (fst p)) row = row"
    by (simp add: filter_id_conv)
  ultimately show ?thesis by (simp add: objectValues_def)
qed

section \<open>Facts about the fallback scan\<close>

lemma cellsLoop_eq:
  "cellsLoop vs (S, acc) =
     Inr (S \<union> set (map toLowerCase (filter isValidEmail (map (\<lambda>value. cellText (Some value)) vs))),
          acc @ filter (\<lambda>y. y \<notin> S)
                  (dedupFirst (map toLowerCase
                     (filter isValidEmail (map (\<lambda>value. cellText (Some value)) vs)))))"
proof (induction vs arbitrary: S acc)
  case Nil
  then show ?case by simp
next
  case (Cons v vs)
  show ?case
    by (auto simp: Let_def Cons trimmedValue_eq filter_notin_removeAll insert_absorb)
qed

lemma cellsLoop_append:
  "cellsLoop (xs @ ys) st =
     (case cellsLoop xs st of Inl e \<Rightarrow> Inl e | Inr st1 \<Rightarrow> cellsLoop ys st1)"
proof (induction xs arbitrary: st)
  case Nil
  then show ?case by simp
next
  case (Cons v xs)
  obtain S acc where st: "st = (S, acc)" by (cases st)
  show ?case
    unfolding st by (simp add: Let_def Cons trimmedValue_eq)
qed

lemma rowsLoop_eq: "rowsLoop data st = cellsLoop (concat (map objectValues data)) st"
proof (induction data arbitrary: st)
  case Nil
  then show ?case by simp
next
  case (Cons row data)
  obtain S acc where st: "st = (S, acc)" by (cases st)
  show ?case
    unfolding st by (simp add: cellsLoop_append Cons cellsLoop_eq [of "objectValues row"])
qed

lemma extractEmailsFromAllCells_eq:
  "extractEmailsFromAllCells data =
     Inr (dedupFirst (map toLowerCase (filter isValidEmail (allCells data))))"
  by (simp add: extractEmailsFromAllCells_def rowsLoop_eq cellsLoop_eq allCells_def)

section \<open>Facts about the pipeline\<close>

lemma extractRawValuesFromColumn_eq:
  "c \<noteq> [] \<Longrightarrow> extractRawValuesFromColumn (Some c) data = Inr (columnValues c data)"
  by (simp add: extractRawValuesFromColumn_def truthy_def valuesLoop_eq)

lemma extractEmailsFromColumn_total: "\<exists>es. extractEmailsFromColumn column data = Inr es"
  by (simp add: extractEmailsFromColumn_def emailsLoop_eq split: option.splits)

lemma gather_eq:
  assumes "detectEmailColumn headers data = Inr col"
  shows "gather headers data = Inr (col, rawValuesOf col data)"
proof (cases col)
  case None
  with assms show ?thesis
    by (simp add: gather_def truthy_def rawValuesOf_def extractEmailsFromAllCells_eq)
next
  case (Some c)
  with assms detectEmailColumn_not_empty [of headers data] have c: "c \<noteq> []" by auto
  obtain es where "extractEmailsFromColumn (Some c) data = Inr es"
    using extractEmailsFromColumn_total by blast
  with assms Some c show ?thesis
    by (simp add: gather_def truthy_def rawValuesOf_def extractRawValuesFromColumn_eq)
qed

lemma runExtraction_eq:
  assumes "detectEmailColumn headers data = Inr col"
  shows "runExtraction rd ri headers data =
     Inr (let raws = rawValuesOf col data;
              st = statsLoop rd ri raws initial
          in \<lparr>emails = processed st,
              detectedColumn = col,
              stats = \<lparr>total = length raws, valid = length (processed st),
                       invalid = invalidCount st, duplicates = duplicatesCount st,
                       empty = emptyCount st\<rparr>\<rparr>)"
  by (simp add: runExtraction_def gather_eq [OF assms] Let_def)

text \<open>The work between the test for an empty table and \<^verbatim>\<open>resolve\<close> throws nothing.\<close>

lemma runExtraction_total: "\<exists>r. runExtraction rd ri headers data = Inr r"
  using detectEmailColumn_total [of headers data] runExtraction_eq by blast

lemma runExtraction_Inr:
  assumes "runExtraction rd ri headers data = Inr r"
  shows "detectEmailColumn headers data = Inr (detectedColumn r)"
    and "r = (let raws = rawValuesOf (detectedColumn r) data;
                  st = statsLoop rd ri raws initial
              in \<lparr>emails = processed st,
                  detectedColumn = detectedColumn r,
                  stats = \<lparr>total = length raws, valid = length (processed st),
                           invalid = invalidCount st, duplicates = duplicatesCount st,
                           empty = emptyCount st\<rparr>\<rparr>)"
proof -
  obtain col where col: "detectEmailColumn headers data = Inr col"
    using detectEmailColumn_total by blast
  from runExtraction_eq [OF col, of rd ri] assms have d: "detectedColumn r = col"
    by (auto simp: Let_def)
  with col show "detectEmailColumn headers data = Inr (detectedColumn r)" by simp
  from runExtraction_eq [OF col, of rd ri] assms d
  show "r = (let raws = rawValuesOf (detectedColumn r) data;
                  st = statsLoop rd ri raws initial
              in \<lparr>emails = processed st,
                  detectedColumn = detectedColumn r,
                  stats = \<lparr>total = length raws, valid = length (processed st),
                           invalid = invalidCount st, duplicates = duplicatesCount st,
                           empty = emptyCount st\<rparr>\<rparr>)"
    by (auto simp: Let_def)
qed

lemma parseCSV_Inr:
  "parseCSVAndExtractEmails headers data opts = Inr r \<Longrightarrow>
   data \<noteq> [] \<and>
   runExtraction (withDefault True (removeDuplicates opts))
     (withDefault True (removeInvalid opts)) headers data = Inr r"
  by (auto simp: parseCSVAndExtractEmails_def Let_def split: if_splits)

lemma parseTSV_Inr:
  "parseTSVAndExtractEmails headers data opts = Inr r \<Longrightarrow>
   data \<noteq> [] \<and>
   runExtraction (optTruthy (removeDuplicates opts))
     (optTruthy (removeInvalid opts)) headers data = Inr r"
  by (auto simp: parseTSVAndExtractEmails_def split: if_splits)

section \<open>Facts about the raw values\<close>

lemma columnValues_normalized:
  "v \<in> set (columnValues c data) \<Longrightarrow> normalized v = toLowerCase v \<and> v \<noteq> []"
  by (auto simp: columnValues_def normalized_def)

lemma allCells_trim: "t \<in> set (allCells data) \<Longrightarrow> trim t = t"
  by (auto simp: allCells_def)

lemma fallback_normalized:
  assumes "v \<in> set (dedupFirst (map toLowerCase (filter isValidEmail (allCells data))))"
  shows "normalized v = v \<and> isValidEmail v"
proof -
  from assms obtain t where t: "t \<in> set (allCells data)" "isValidEmail t" "v = toLowerCase t"
    by auto
  then have "trim v = v" by (simp add: trim_lower allCells_trim)
  with t show ?thesis by (simp add: normalized_def)
qed

lemma rawValuesOf_nonempty:
  "v \<in> set (rawValuesOf column data) \<Longrightarrow> normalized v \<noteq> []"
proof (cases column)
  case None
  assume "v \<in> set (rawValuesOf column data)"
  with None have "v \<in> set (dedupFirst (map toLowerCase (filter isValidEmail (allCells data))))"
    by (simp add: rawValuesOf_def)
  then have "isValidEmail v" by (rule fallback_normalized [THEN conjunct2])
  then show ?thesis using normalized_Nil_invalid by blast
next
  case (Some c)
  assume "v \<in> set (rawValuesOf column data)"
  with Some have "v \<in> set (columnValues c data)" by (simp add: rawValuesOf_def)
  then show ?thesis using columnValues_normalized [of v c data] by simp
qed

lemma filter_raws_nonempty:
  "filter (\<lambda>v. normalized v \<noteq> [] \<and> P v) (rawValuesOf column data) =
   filter P (rawValuesOf column data)"
  by (rule filter_cong) (auto dest: rawValuesOf_nonempty)

section \<open>Facts about the result\<close>

lemma runExtraction_empty:
  assumes "runExtraction rd ri headers data = Inr r"
  shows "empty (stats r) = 0"
proof -
  have "filter (\<lambda>v. normalized v = []) (rawValuesOf (detectedColumn r) data) = []"
    using rawValuesOf_nonempty by (auto simp: filter_empty_conv)
  then show ?thesis
    by (subst runExtraction_Inr(2) [OF assms])
       (simp add: Let_def statsLoop_emptyCount initial_def)
qed

lemma runExtraction_total_valid:
  assumes "runExtraction rd ri headers data = Inr r"
  shows "total (stats r) = length (rawValuesOf (detectedColumn r) data) \<and>
         valid (stats r) = length (emails r)"
  by (subst (1 2 4) runExtraction_Inr(2) [OF assms]) (simp add: Let_def)

lemma runExtraction_invalid:
  assumes "runExtraction rd ri headers data = Inr r"
  shows "invalid (stats r) =
           length (filter (\<lambda>v. \<not> isValidEmail v) (rawValuesOf (detectedColumn r) data))"
  by (subst runExtraction_Inr(2) [OF assms])
     (simp add: Let_def statsLoop_invalidCount initial_def filter_raws_nonempty)

lemma runExtraction_emails:
  assumes "runExtraction rd ri headers data = Inr r"
  shows "emails r =
     (let kept = filter (\<lambda>v. isValidEmail v \<or> \<not> ri) (rawValuesOf (detectedColumn r) data)
      in if rd then dedupFirst (map normalized kept) else map normalized kept)"
  by (subst runExtraction_Inr(2) [OF assms], cases rd)
     (simp_all add: Let_def statsLoop_processed_all statsLoop_processed_dedup
        initial_def filter_raws_nonempty)

lemma runExtraction_duplicates:
  assumes "runExtraction rd ri headers data = Inr r"
  shows "duplicates (stats r) + length (emails r) =
           length (filter (\<lambda>v. isValidEmail v \<or> \<not> ri) (rawValuesOf (detectedColumn r) data))"
proof -
  let ?raws = "rawValuesOf (detectedColumn r) data"
  have "duplicatesCount (statsLoop rd ri ?raws initial)
          + length (processed (statsLoop rd ri ?raws initial)) =
        length (filter (\<lambda>v. isValidEmail v \<or> \<not> ri) ?raws)"
    by (simp add: statsLoop_duplicatesCount initial_def filter_raws_nonempty)
  then show ?thesis
    by (subst (1 2) runExtraction_Inr(2) [OF assms]) (simp add: Let_def)
qed

lemma runExtraction_fallback:
  assumes "runExtraction rd ri headers data = Inr r" and "detectedColumn r = None"
  shows "emails r = dedupFirst (map toLowerCase (filter isValidEmail (allCells data)))"
proof -
  let ?E = "dedupFirst (map toLowerCase (filter isValidEmail (allCells data)))"
  have raws: "rawValuesOf (detectedColumn r) data = ?E"
    by (simp add: assms(2) rawValuesOf_def)
  have "\<forall>v\<in>set ?E. isValidEmail v \<or> \<not> ri"
    using fallback_normalized by blast
  then have kept: "filter (\<lambda>v. isValidEmail v \<or> \<not> ri) ?E = ?E"
    by (rule filter_True)
  have norm: "map normalized ?E = ?E"
    by (rule map_idI) (rule fallback_normalized [THEN conjunct1])
  have "dedupFirst ?E = ?E"
    by (rule dedupFirst_distinct) simp
  with kept norm show ?thesis
    unfolding runExtraction_emails [OF assms(1)] raws by (simp add: Let_def)
qed

lemma valid_cell_in_allCells:
  assumes "row \<in> set data" and "(k, Str s) \<in> set row" and "isValidEmail s"
  shows "normalized s \<in> set (dedupFirst (map toLowerCase (filter isValidEmail (allCells data))))"
proof -
  from assms(2) have "Str s \<in> set (objectValues row)"
    unfolding set_objectValues by force
  with assms(1) have "cellText (Some (Str s)) \<in> set (allCells data)"
    unfolding allCells_def by force
  then have "trim s \<in> set (allCells data)" by (simp add: cellText_def)
  with assms(3) show ?thesis by (auto simp: normalized_def)
qed

lemma allCells_no_index:
  "\<forall>row\<in>set data. \<forall>p\<in>set row. \<not> isArrayIndex (fst p) \<Longrightarrow>
   allCells data = map (\<lambda>p. cellText (Some (snd p))) (concat data)"
proof (induction data)
  case Nil
  then show ?case by (simp add: allCells_def)
next
  case (Cons row data)
  then have "objectValues row = map snd row"
    by (intro objectValues_no_index) simp
  with Cons show ?case by (simp add: allCells_def)
qed

section \<open>Column detector: tier 3\<close>

text \<open>
  Claim C3, as amended. The count the detector computes for a header is the score of the
  column: the number of rows whose cell in it is a valid email. In tier 3 (no header
  matches tier 1 or tier 2) the scan keeps the first header, in header order, whose score
  is the highest: every header before it has a strictly lower score and every header
  after it has a score that is not higher. When that score is positive the detector
  returns this header, unless the header is the empty string, which the final test
  \<^verbatim>\<open>bestColumn && maxEmailCount > 0\<close> treats as no column: then it returns none. When
  every header's score is zero it returns none.
\<close>

theorem detectEmailColumn_tier3:
  "tier3 headers \<Longrightarrow>
   (\<forall>g. countEmailLikeValues g data = Inr (score g data)) \<and>
   (headers = pre @ h # post \<and>
    (\<forall>g\<in>set pre. score g data < score h data) \<and>
    (\<forall>g\<in>set post. score g data \<le> score h data) \<and>
    0 < score h data
    \<longrightarrow> detectEmailColumn headers data = Inr (if h = [] then None else Some h)) \<and>
   ((\<forall>g\<in>set headers. score g data = 0)
    \<longrightarrow> detectEmailColumn headers data = Inr None)"
proof (intro conjI impI allI)
  assume t: "tier3 headers"
  {
    fix g
    show "countEmailLikeValues g data = Inr (score g data)"
      by (rule countEmailLikeValues_eq)
  next
    assume "\<forall>g\<in>set headers. score g data = 0"
    then have "scoreLoop headers data (None, 0) = Inr (None, 0)"
      by (intro scoreLoop_keep) simp
    with t show "detectEmailColumn headers data = Inr None"
      by (simp add: detect_tier3)
  next
    assume a: "headers = pre @ h # post \<and>
      (\<forall>g\<in>set pre. score g data < score h data) \<and>
      (\<forall>g\<in>set post. score g data \<le> score h data) \<and>
      0 < score h data"
    then have "scoreLoop headers data (None, 0) = Inr (Some h, score h data)"
      using scoreLoop_first_max [of pre data h post 0 None] by simp
    with t a show "detectEmailColumn headers data = Inr (if h = [] then None else Some h)"
      by (simp add: detect_tier3 truthy_def)
  }
qed

text \<open>
  The theorem at three headers, none matching tier 1 or 2, with scores 0, 1 and 1: the
  first of the two headers with score 1 is returned.
\<close>

theorem detectEmailColumn_tier3_witness:
  "tier3 [''Name'', ''Contact'', ''Alt''] \<and>
   score ''Name''
     [[(''Name'', Str ''Al''), (''Contact'', Str ''a@x.com''), (''Alt'', Str ''b@x.com'')]] = 0 \<and>
   score ''Contact''
     [[(''Name'', Str ''Al''), (''Contact'', Str ''a@x.com''), (''Alt'', Str ''b@x.com'')]] = 1 \<and>
   score ''Alt''
     [[(''Name'', Str ''Al''), (''Contact'', Str ''a@x.com''), (''Alt'', Str ''b@x.com'')]] = 1 \<and>
   detectEmailColumn [''Name'', ''Contact'', ''Alt'']
     [[(''Name'', Str ''Al''), (''Contact'', Str ''a@x.com''), (''Alt'', Str ''b@x.com'')]]
     = Inr (Some ''Contact'')"
proof -
  let ?d = "[[(''Name'', Str ''Al''), (''Contact'', Str ''a@x.com''), (''Alt'', Str ''b@x.com'')]]"
  have t: "tier3 [''Name'', ''Contact'', ''Alt'']" by code_simp
  have c1: "score ''Name'' ?d = 0" by code_simp
  have c2: "score ''Contact'' ?d = 1" by code_simp
  have c3: "score ''Alt'' ?d = 1" by code_simp
  from detectEmailColumn_tier3 [OF t, of ?d "[''Name'']" "''Contact''" "[''Alt'']"] c1 c2 c3
  have "detectEmailColumn [''Name'', ''Contact'', ''Alt''] ?d = Inr (Some ''Contact'')" by simp
  with t c1 c2 c3 show ?thesis by simp
qed

text \<open>
  Claim C3 as it is written fails where the header with the highest score is the empty
  string: the table has the headers \<open>''''\<close> and \<open>X\<close>, the one cell under \<open>''''\<close> is a valid
  email and the cell under \<open>X\<close> is not, so the score 1 of \<open>''''\<close> is strictly the highest
  and not zero, and the detector returns none.
\<close>

theorem detectEmailColumn_tier3_counterexample:
  "tier3 ['''', ''X''] \<and>
   score '''' [[('''', Str ''a@b.com''), (''X'', Str ''no'')]] = 1 \<and>
   score ''X'' [[('''', Str ''a@b.com''), (''X'', Str ''no'')]] = 0 \<and>
   detectEmailColumn ['''', ''X''] [[('''', Str ''a@b.com''), (''X'', Str ''no'')]] = Inr None"
  by code_simp

section \<open>Column detector: tier 1\<close>

text \<open>
  Claim C8. When some header is exactly \<open>E-mail 1 - Value\<close> the detector returns it,
  whatever the rows hold and whatever the other headers are.
\<close>

theorem detectEmailColumn_exact_header:
  "''E-mail 1 - Value'' \<in> set headers \<Longrightarrow>
   detectEmailColumn headers data = Inr (Some ''E-mail 1 - Value'')"
  by (simp add: detectEmailColumn_def find_exact truthy_def)

text \<open>
  The theorem on a table where the column \<open>Other\<close> holds a valid email and the column
  \<open>E-mail 1 - Value\<close> holds none.
\<close>

theorem detectEmailColumn_exact_header_witness:
  "''E-mail 1 - Value'' \<in> set [''Other'', ''E-mail 1 - Value''] \<and>
   score ''E-mail 1 - Value''
     [[(''Other'', Str ''a@b.com''), (''E-mail 1 - Value'', Str ''none'')]]
   < score ''Other''
     [[(''Other'', Str ''a@b.com''), (''E-mail 1 - Value'', Str ''none'')]] \<and>
   countEmailLikeValues ''Other''
     [[(''Other'', Str ''a@b.com''), (''E-mail 1 - Value'', Str ''none'')]] = Inr 1 \<and>
   detectEmailColumn [''Other'', ''E-mail 1 - Value'']
     [[(''Other'', Str ''a@b.com''), (''E-mail 1 - Value'', Str ''none'')]]
     = Inr (Some ''E-mail 1 - Value'')"
  using detectEmailColumn_exact_header
    [of "[''Other'', ''E-mail 1 - Value'']"
        "[[(''Other'', Str ''a@b.com''), (''E-mail 1 - Value'', Str ''none'')]]"]
  by code_simp

section \<open>Rejection of the empty table\<close>

text \<open>
  Claim C4. Each variant rejects, with its own empty-file error, exactly when the decoded
  row sequence has no row; on every other row sequence it resolves with a result. A cell
  may be missing or hold a value that is not a string, on which the call of
  \<^verbatim>\<open>trim\<close> would throw and the variant would reject with that error: every read of a cell
  tests the type of the value first, so on no table does the work throw.
\<close>

theorem pipeline_rejects_iff_no_rows:
  "(parseCSVAndExtractEmails headers data opts = Inl CSVEmpty) = (data = []) \<and>
   (\<exists>r. parseCSVAndExtractEmails headers data opts = Inr r) = (data \<noteq> []) \<and>
   (parseTSVAndExtractEmails headers data opts = Inl TSVEmpty) = (data = []) \<and>
   (\<exists>r. parseTSVAndExtractEmails headers data opts = Inr r) = (data \<noteq> [])"
proof -
  obtain r1 where r1: "runExtraction (withDefault True (removeDuplicates opts))
      (withDefault True (removeInvalid opts)) headers data = Inr r1"
    using runExtraction_total by blast
  obtain r2 where r2: "runExtraction (optTruthy (removeDuplicates opts))
      (optTruthy (removeInvalid opts)) headers data = Inr r2"
    using runExtraction_total by blast
  from r1 r2 show ?thesis
    by (simp add: parseCSVAndExtractEmails_def parseTSVAndExtractEmails_def Let_def)
qed

text \<open>
  The theorem on a table of one row with a cell that is not a string, a missing cell and
  an array of further cells: both variants resolve, with no email.
\<close>

theorem pipeline_rejects_iff_no_rows_witness:
  "(\<exists>r. parseCSVAndExtractEmails [''Name'', ''Mail'']
          [[(''Name'', NonStr), (''__parsed_extra'', Arr [''a@b.com''])]] omitted = Inr r) \<and>
   (\<exists>r. parseTSVAndExtractEmails [''Name'', ''Mail'']
          [[(''Name'', NonStr), (''__parsed_extra'', Arr [''a@b.com''])]] omitted = Inr r) \<and>
   parseCSVAndExtractEmails [''Name'', ''Mail'']
     [[(''Name'', NonStr), (''__parsed_extra'', Arr [''a@b.com''])]] omitted
   = Inr \<lparr>emails = [], detectedColumn = None,
          stats = \<lparr>total = 0, valid = 0, invalid = 0, duplicates = 0, empty = 0\<rparr>\<rparr> \<and>
   callTrim (Some NonStr) = Inl TypeError \<and>
   parseCSVAndExtractEmails [''Name'', ''Mail''] [] omitted = Inl CSVEmpty \<and>
   parseTSVAndExtractEmails [''Name'', ''Mail''] [] omitted = Inl TSVEmpty"
proof -
  let ?d = "[[(''Name'', NonStr), (''__parsed_extra'', Arr [''a@b.com''])]]"
  have e: "parseCSVAndExtractEmails [''Name'', ''Mail''] ?d omitted
      = Inr \<lparr>emails = [], detectedColumn = None,
          stats = \<lparr>total = 0, valid = 0, invalid = 0, duplicates = 0, empty = 0\<rparr>\<rparr>"
    by code_simp
  have c: "callTrim (Some NonStr) = Inl TypeError" by code_simp
  show ?thesis
    using pipeline_rejects_iff_no_rows [of "[''Name'', ''Mail'']" ?d omitted]
      pipeline_rejects_iff_no_rows [of "[''Name'', ''Mail'']" "[]" omitted] e c
    by simp
qed

section \<open>The empty counter\<close>

text \<open>
  Claim C10. Whatever the table and the options, in both variants, the result has
  \<open>stats.empty = 0\<close>: every raw value is non-empty after trimming and lowercasing, so
  the loop never takes the branch that increments the counter.
\<close>

theorem stats_empty_is_zero:
  "parseCSVAndExtractEmails headers data opts = Inr r \<or>
   parseTSVAndExtractEmails headers data opts = Inr r \<Longrightarrow>
   empty (stats r) = 0"
  using parseCSV_Inr [of headers data opts r] parseTSV_Inr [of headers data opts r]
  by (auto dest: runExtraction_empty)

text \<open>The theorem on a column with an empty cell and a missing cell.\<close>

theorem stats_empty_is_zero_witness:
  "parseTSVAndExtractEmails [''Contact'']
     [[(''Contact'', Str '' '')], [], [(''Contact'', Str ''c@d.com'')]] omitted
   = Inr \<lparr>emails = [''c@d.com''], detectedColumn = Some ''Contact'',
          stats = \<lparr>total = 1, valid = 1, invalid = 0, duplicates = 0, empty = 0\<rparr>\<rparr> \<and>
   empty (stats \<lparr>emails = [''c@d.com''], detectedColumn = Some ''Contact'',
          stats = \<lparr>total = 1, valid = 1, invalid = 0, duplicates = 0, empty = 0\<rparr>\<rparr>) = 0"
proof -
  have e: "parseTSVAndExtractEmails [''Contact'']
     [[(''Contact'', Str '' '')], [], [(''Contact'', Str ''c@d.com'')]] omitted
   = Inr \<lparr>emails = [''c@d.com''], detectedColumn = Some ''Contact'',
          stats = \<lparr>total = 1, valid = 1, invalid = 0, duplicates = 0, empty = 0\<rparr>\<rparr>"
    by code_simp
  from e stats_empty_is_zero [OF disjI2, OF e] show ?thesis by simp
qed

section \<open>Total and valid\<close>

text \<open>
  Claim C6. Whatever the table and the options, in both variants, the detected column of
  the result is what the detector returns, \<open>stats.total\<close> is the length of the raw-values
  sequence (in column mode the non-empty trimmed cells of the detected column, in
  fallback mode the validated, deduplicated email list) and \<open>stats.valid\<close> is the length
  of \<open>emails\<close>.
\<close>

theorem stats_total_and_valid:
  "parseCSVAndExtractEmails headers data opts = Inr r \<or>
   parseTSVAndExtractEmails headers data opts = Inr r \<Longrightarrow>
   detectEmailColumn headers data = Inr (detectedColumn r) \<and>
   total (stats r) =
     (case detectedColumn r of
        Some c \<Rightarrow> length (columnValues c data)
      | None \<Rightarrow> length (dedupFirst (map toLowerCase (filter isValidEmail (allCells data))))) \<and>
   valid (stats r) = length (emails r)"
proof -
  assume "parseCSVAndExtractEmails headers data opts = Inr r \<or>
          parseTSVAndExtractEmails headers data opts = Inr r"
  then obtain rd ri where r: "runExtraction rd ri headers data = Inr r"
    using parseCSV_Inr [of headers data opts r] parseTSV_Inr [of headers data opts r] by blast
  from runExtraction_Inr(1) [OF r] runExtraction_total_valid [OF r] show ?thesis
    by (simp add: rawValuesOf_def split: option.splits)
qed

text \<open>
  The theorem on a column of three cells, one of them empty, with invalid values kept.
\<close>

theorem stats_total_and_valid_witness:
  "parseCSVAndExtractEmails [''Contact'']
     [[(''Contact'', Str ''bad'')], [(''Contact'', Str '''')], [(''Contact'', Str ''c@d.com'')]]
     \<lparr>removeDuplicates = Some False, removeInvalid = Some False\<rparr>
   = Inr \<lparr>emails = [''bad'', ''c@d.com''], detectedColumn = Some ''Contact'',
          stats = \<lparr>total = 2, valid = 2, invalid = 1, duplicates = 0, empty = 0\<rparr>\<rparr> \<and>
   columnValues ''Contact''
     [[(''Contact'', Str ''bad'')], [(''Contact'', Str '''')], [(''Contact'', Str ''c@d.com'')]]
   = [''bad'', ''c@d.com''] \<and>
   detectEmailColumn [''Contact'']
     [[(''Contact'', Str ''bad'')], [(''Contact'', Str '''')], [(''Contact'', Str ''c@d.com'')]]
   = Inr (Some ''Contact'')"
proof -
  let ?d = "[[(''Contact'', Str ''bad'')], [(''Contact'', Str '''')], [(''Contact'', Str ''c@d.com'')]]"
  let ?o = "\<lparr>removeDuplicates = Some False, removeInvalid = Some False\<rparr>"
  let ?r = "\<lparr>emails = [''bad'', ''c@d.com''], detectedColumn = Some ''Contact'',
          stats = \<lparr>total = 2, valid = 2, invalid = 1, duplicates = 0, empty = 0\<rparr>\<rparr>"
  have e: "parseCSVAndExtractEmails [''Contact''] ?d ?o = Inr ?r" by code_simp
  have c: "columnValues ''Contact'' ?d = [''bad'', ''c@d.com'']" by code_simp
  from stats_total_and_valid [OF disjI1, OF e] e c show ?thesis by simp
qed

section \<open>Fallback scan\<close>

text \<open>
  Claim C7, as amended. When the detector returns none, both variants, whatever the
  options, return \<open>detectedColumn = null\<close> and as \<open>emails\<close> the property values of the
  rows, row by row and within a row in the order \<^verbatim>\<open>Object.values\<close> enumerates them,
  restricted to the strings that, trimmed, are valid emails, lowercased, and deduplicated
  keeping first occurrences. A value that is not a string, such as the array of the cells
  beyond the width of the header, contributes nothing. The normalized form of every
  string cell that is a valid email is in \<open>emails\<close>. When no key of any row is an array
  index, the order within a row is the order in which the properties were created, the
  header order for a decoded row.
\<close>

theorem fallback_scan:
  "detectEmailColumn headers data = Inr None \<Longrightarrow>
   parseCSVAndExtractEmails headers data opts = Inr r \<or>
   parseTSVAndExtractEmails headers data opts = Inr r \<Longrightarrow>
   detectedColumn r = None \<and>
   emails r = dedupFirst (map toLowerCase (filter isValidEmail (allCells data))) \<and>
   (\<forall>row\<in>set data. \<forall>k s. (k, Str s) \<in> set row \<and> isValidEmail s
      \<longrightarrow> normalized s \<in> set (emails r)) \<and>
   ((\<forall>row\<in>set data. \<forall>p\<in>set row. \<not> isArrayIndex (fst p))
      \<longrightarrow> allCells data = map (\<lambda>p. cellText (Some (snd p))) (concat data))"
proof -
  assume d: "detectEmailColumn headers data = Inr None"
  assume "parseCSVAndExtractEmails headers data opts = Inr r \<or>
          parseTSVAndExtractEmails headers data opts = Inr r"
  then obtain rd ri where r: "runExtraction rd ri headers data = Inr r"
    using parseCSV_Inr [of headers data opts r] parseTSV_Inr [of headers data opts r] by blast
  from runExtraction_Inr(1) [OF r] d have c: "detectedColumn r = None"
    by simp
  have e: "emails r = dedupFirst (map toLowerCase (filter isValidEmail (allCells data)))"
    using r c by (rule runExtraction_fallback)
  have m: "\<forall>row\<in>set data. \<forall>k s. (k, Str s) \<in> set row \<and> isValidEmail s
          \<longrightarrow> normalized s \<in> set (emails r)"
    unfolding e using valid_cell_in_allCells by blast
  have "(\<forall>row\<in>set data. \<forall>p\<in>set row. \<not> isArrayIndex (fst p))
      \<longrightarrow> allCells data = map (\<lambda>p. cellText (Some (snd p))) (concat data)"
    using allCells_no_index by blast
  with c e m show ?thesis by simp
qed

text \<open>
  The theorem on a table whose emails are under a header that is the empty string, which
  the detector never returns: the scan finds them, one of them twice in different case.
\<close>

theorem fallback_scan_witness:
  "detectEmailColumn [''Name'', []]
     [[(''Name'', Str ''no''), ([], Str '' A@B.com '')], [(''Name'', Str ''a@b.com''), ([], Str ''c@d.org'')]]
   = Inr None \<and>
   parseCSVAndExtractEmails [''Name'', []]
     [[(''Name'', Str ''no''), ([], Str '' A@B.com '')], [(''Name'', Str ''a@b.com''), ([], Str ''c@d.org'')]]
     omitted
   = Inr \<lparr>emails = [''a@b.com'', ''c@d.org''], detectedColumn = None,
          stats = \<lparr>total = 2, valid = 2, invalid = 0, duplicates = 0, empty = 0\<rparr>\<rparr> \<and>
   dedupFirst (map toLowerCase (filter isValidEmail (allCells
     [[(''Name'', Str ''no''), ([], Str '' A@B.com '')], [(''Name'', Str ''a@b.com''), ([], Str ''c@d.org'')]])))
   = [''a@b.com'', ''c@d.org''] \<and>
   allCells
     [[(''Name'', Str ''no''), ([], Str '' A@B.com '')], [(''Name'', Str ''a@b.com''), ([], Str ''c@d.org'')]]
   = [''no'', ''A@B.com'', ''a@b.com'', ''c@d.org'']"
proof -
  let ?d = "[[(''Name'', Str ''no''), ([], Str '' A@B.com '')],
             [(''Name'', Str ''a@b.com''), ([], Str ''c@d.org'')]]"
  let ?r = "\<lparr>emails = [''a@b.com'', ''c@d.org''], detectedColumn = None,
          stats = \<lparr>total = 2, valid = 2, invalid = 0, duplicates = 0, empty = 0\<rparr>\<rparr>"
  have n: "detectEmailColumn [''Name'', []] ?d = Inr None" by code_simp
  have e: "parseCSVAndExtractEmails [''Name'', []] ?d omitted = Inr ?r" by code_simp
  have i: "\<forall>row\<in>set ?d. \<forall>p\<in>set row. \<not> isArrayIndex (fst p)" by code_simp
  have t: "map (\<lambda>p. cellText (Some (snd p))) (concat ?d) = [''no'', ''A@B.com'', ''a@b.com'', ''c@d.org'']"
    by code_simp
  note th = fallback_scan [OF n disjI1, OF e]
  from th have "emails ?r = dedupFirst (map toLowerCase (filter isValidEmail (allCells ?d)))"
    by (rule conjunct2 [THEN conjunct1])
  then have a: "dedupFirst (map toLowerCase (filter isValidEmail (allCells ?d)))
      = [''a@b.com'', ''c@d.org'']"
    by simp
  from th i have "allCells ?d = map (\<lambda>p. cellText (Some (snd p))) (concat ?d)"
    by (elim conjE impE)
  with t have b: "allCells ?d = [''no'', ''A@B.com'', ''a@b.com'', ''c@d.org'']"
    by (rule back_subst [where P = "\<lambda>x. allCells ?d = x", rotated])
  from n e a b show ?thesis by (intro conjI)
qed

text \<open>
  Claim C7 as it is written fails on the table with the headers \<open>''''\<close> and \<open>7\<close> and one
  row with \<open>e@x.com\<close> under \<open>''''\<close>, \<open>s@x.com\<close> under \<open>7\<close> and a third cell
  \<open>z@x.com\<close> beyond the width of the header. The detector returns none, the header with
  the highest score being the empty string. Row-then-column order gives \<open>e@x.com\<close> before
  \<open>s@x.com\<close>; the scan returns \<open>s@x.com\<close> first, the key \<open>7\<close> being an array index. The
  third cell is a valid email and is not in \<open>emails\<close>.
\<close>

theorem fallback_scan_counterexample:
  "detectEmailColumn ['''', ''7'']
     [[('''', Str ''e@x.com''), (''7'', Str ''s@x.com''), (''__parsed_extra'', Arr [''z@x.com''])]]
   = Inr None \<and>
   parseCSVAndExtractEmails ['''', ''7'']
     [[('''', Str ''e@x.com''), (''7'', Str ''s@x.com''), (''__parsed_extra'', Arr [''z@x.com''])]]
     omitted
   = Inr \<lparr>emails = [''s@x.com'', ''e@x.com''], detectedColumn = None,
          stats = \<lparr>total = 2, valid = 2, invalid = 0, duplicates = 0, empty = 0\<rparr>\<rparr> \<and>
   dedupFirst (map toLowerCase (filter isValidEmail (cellsByHeader ['''', ''7'']
     [[('''', Str ''e@x.com''), (''7'', Str ''s@x.com''), (''__parsed_extra'', Arr [''z@x.com''])]])))
   = [''e@x.com'', ''s@x.com''] \<and>
   isValidEmail ''z@x.com''"
  by code_simp

section \<open>Invalid values kept\<close>

text \<open>
  Claim C5. In the CSV variant with \<open>removeInvalid = false\<close> given, in column mode:
  \<open>stats.invalid\<close> counts every raw value of the detected column that is not a valid
  email; \<open>emails\<close> is the normalized form of every raw value, valid or not, deduplicated
  keeping first occurrences when duplicates are removed; \<open>stats.valid\<close> is its length.
  So the normalized form of every invalid raw value is in \<open>emails\<close>.
\<close>

theorem invalid_values_kept:
  "parseCSVAndExtractEmails headers data opts = Inr r \<Longrightarrow>
   removeInvalid opts = Some False \<Longrightarrow>
   detectEmailColumn headers data = Inr (Some c) \<Longrightarrow>
   invalid (stats r) = length (filter (\<lambda>v. \<not> isValidEmail v) (columnValues c data)) \<and>
   emails r =
     (if withDefault True (removeDuplicates opts)
      then dedupFirst (map normalized (columnValues c data))
      else map normalized (columnValues c data)) \<and>
   valid (stats r) = length (emails r) \<and>
   (\<forall>v\<in>set (columnValues c data). \<not> isValidEmail v \<longrightarrow> normalized v \<in> set (emails r))"
proof -
  assume p: "parseCSVAndExtractEmails headers data opts = Inr r"
    and i: "removeInvalid opts = Some False"
    and d: "detectEmailColumn headers data = Inr (Some c)"
  let ?rd = "withDefault True (removeDuplicates opts)"
  from p i have r: "runExtraction ?rd False headers data = Inr r"
    using parseCSV_Inr [of headers data opts r] by (simp add: withDefault_def)
  from runExtraction_Inr(1) [OF r] d have col: "detectedColumn r = Some c" by simp
  have raws: "rawValuesOf (detectedColumn r) data = columnValues c data"
    by (simp add: col rawValuesOf_def)
  have inv: "invalid (stats r) = length (filter (\<lambda>v. \<not> isValidEmail v) (columnValues c data))"
    using runExtraction_invalid [OF r] by (simp add: raws)
  have em: "emails r =
     (if ?rd then dedupFirst (map normalized (columnValues c data))
      else map normalized (columnValues c data))"
    using runExtraction_emails [OF r] by (simp add: raws Let_def)
  have va: "valid (stats r) = length (emails r)"
    using runExtraction_total_valid [OF r] by simp
  have "\<forall>v\<in>set (columnValues c data). normalized v \<in> set (emails r)"
    by (simp add: em)
  with inv em va show ?thesis by simp
qed

text \<open>
  The theorem on a column holding an invalid value twice, in different case, and a valid
  email, with duplicates removed.
\<close>

theorem invalid_values_kept_witness:
  "parseCSVAndExtractEmails [''Contact'']
     [[(''Contact'', Str ''Bad'')], [(''Contact'', Str ''c@d.com'')], [(''Contact'', Str '' bad'')]]
     \<lparr>removeDuplicates = Some True, removeInvalid = Some False\<rparr>
   = Inr \<lparr>emails = [''bad'', ''c@d.com''], detectedColumn = Some ''Contact'',
          stats = \<lparr>total = 3, valid = 2, invalid = 2, duplicates = 1, empty = 0\<rparr>\<rparr> \<and>
   columnValues ''Contact''
     [[(''Contact'', Str ''Bad'')], [(''Contact'', Str ''c@d.com'')], [(''Contact'', Str '' bad'')]]
   = [''Bad'', ''c@d.com'', ''bad''] \<and>
   length (filter (\<lambda>v. \<not> isValidEmail v) [''Bad'', ''c@d.com'', ''bad'']) = 2"
proof -
  let ?d = "[[(''Contact'', Str ''Bad'')], [(''Contact'', Str ''c@d.com'')], [(''Contact'', Str '' bad'')]]"
  let ?o = "\<lparr>removeDuplicates = Some True, removeInvalid = Some False\<rparr>"
  let ?r = "\<lparr>emails = [''bad'', ''c@d.com''], detectedColumn = Some ''Contact'',
          stats = \<lparr>total = 3, valid = 2, invalid = 2, duplicates = 1, empty = 0\<rparr>\<rparr>"
  have e: "parseCSVAndExtractEmails [''Contact''] ?d ?o = Inr ?r" by code_simp
  have i: "removeInvalid ?o = Some False" by simp
  have c: "detectEmailColumn [''Contact''] ?d = Inr (Some ''Contact'')" by code_simp
  have v: "columnValues ''Contact'' ?d = [''Bad'', ''c@d.com'', ''bad'']" by code_simp
  from invalid_values_kept [OF e i c] e v show ?thesis by simp
qed

section \<open>Duplicates removed\<close>

text \<open>
  Claim C9. With \<open>removeDuplicates = true\<close>, in both variants: the raw values the loop
  does not drop as invalid are normalized (trimmed and lowercased) and \<open>emails\<close> keeps the
  first occurrence of every normalized form, in order, so it has no repetition; every
  later occurrence is counted in \<open>stats.duplicates\<close>, which with the length of
  \<open>emails\<close> adds up to the number of those raw values. The raw values are those of the
  detected column of the result, which is what the detector returns. Here \<open>ri\<close> is the
  truth value of \<open>removeInvalid\<close> as the variant reads it.
\<close>

theorem duplicates_removed:
  "removeDuplicates opts = Some True \<Longrightarrow>
   parseCSVAndExtractEmails headers data opts = Inr r \<and> ri = withDefault True (removeInvalid opts) \<or>
   parseTSVAndExtractEmails headers data opts = Inr r \<and> ri = optTruthy (removeInvalid opts) \<Longrightarrow>
   detectEmailColumn headers data = Inr (detectedColumn r) \<and>
   emails r =
     dedupFirst (map normalized
       (filter (\<lambda>v. isValidEmail v \<or> \<not> ri) (rawValuesOf (detectedColumn r) data))) \<and>
   duplicates (stats r) + length (emails r) =
     length (filter (\<lambda>v. isValidEmail v \<or> \<not> ri) (rawValuesOf (detectedColumn r) data)) \<and>
   distinct (emails r)"
proof -
  assume d: "removeDuplicates opts = Some True"
  assume "parseCSVAndExtractEmails headers data opts = Inr r \<and> ri = withDefault True (removeInvalid opts) \<or>
          parseTSVAndExtractEmails headers data opts = Inr r \<and> ri = optTruthy (removeInvalid opts)"
  with d have r: "runExtraction True ri headers data = Inr r"
    using parseCSV_Inr [of headers data opts r] parseTSV_Inr [of headers data opts r]
    by (auto simp: withDefault_def optTruthy_def)
  let ?kept = "filter (\<lambda>v. isValidEmail v \<or> \<not> ri) (rawValuesOf (detectedColumn r) data)"
  have c: "detectEmailColumn headers data = Inr (detectedColumn r)"
    using r by (rule runExtraction_Inr(1))
  have e: "emails r = dedupFirst (map normalized ?kept)"
    using runExtraction_emails [OF r] by (simp add: Let_def)
  have n: "duplicates (stats r) + length (emails r) = length ?kept"
    using r by (rule runExtraction_duplicates)
  have "distinct (emails r)"
    by (simp add: e)
  with c e n show ?thesis by simp
qed

text \<open>
  The theorem on a column holding \<open>A@B.com\<close>, another email and \<open>a@b.com\<close>.
\<close>

theorem duplicates_removed_witness:
  "parseCSVAndExtractEmails [''Email'']
     [[(''Email'', Str ''A@B.com'')], [(''Email'', Str ''x@y.org'')], [(''Email'', Str ''a@b.com'')]]
     \<lparr>removeDuplicates = Some True, removeInvalid = Some True\<rparr>
   = Inr \<lparr>emails = [''a@b.com'', ''x@y.org''], detectedColumn = Some ''Email'',
          stats = \<lparr>total = 3, valid = 2, invalid = 0, duplicates = 1, empty = 0\<rparr>\<rparr> \<and>
   dedupFirst (map normalized [''A@B.com'', ''x@y.org'', ''a@b.com'']) = [''a@b.com'', ''x@y.org'']"
proof -
  let ?d = "[[(''Email'', Str ''A@B.com'')], [(''Email'', Str ''x@y.org'')], [(''Email'', Str ''a@b.com'')]]"
  let ?o = "\<lparr>removeDuplicates = Some True, removeInvalid = Some True\<rparr>"
  let ?r = "\<lparr>emails = [''a@b.com'', ''x@y.org''], detectedColumn = Some ''Email'',
          stats = \<lparr>total = 3, valid = 2, invalid = 0, duplicates = 1, empty = 0\<rparr>\<rparr>"
  have e: "parseCSVAndExtractEmails [''Email''] ?d ?o = Inr ?r" by code_simp
  have o: "removeDuplicates ?o = Some True" by simp
  have k: "filter (\<lambda>v. isValidEmail v \<or> \<not> True) (rawValuesOf (Some ''Email'') ?d)
           = [''A@B.com'', ''x@y.org'', ''a@b.com'']"
    by code_simp
  have "parseCSVAndExtractEmails [''Email''] ?d ?o = Inr ?r \<and> True = withDefault True (removeInvalid ?o) \<or>
        parseTSVAndExtractEmails [''Email''] ?d ?o = Inr ?r \<and> True = optTruthy (removeInvalid ?o)"
    using e by (simp add: withDefault_def)
  from duplicates_removed [OF o this] e k show ?thesis by simp
qed

section \<open>Scenario B\<close>

text \<open>
  Claim C1. The CSV variant with the options omitted, on the table with the header
  \<open>Contact\<close> and the three cells \<open>bad\<close>, the empty string and \<open>c@d.com\<close>: the
  detected column, the emails, \<open>total\<close>, \<open>valid\<close>, \<open>invalid\<close> and \<open>duplicates\<close> are
  those of the scenario, and \<open>stats.empty\<close> is 0 where the scenario has 1: the empty cell
  is not among the raw values, so the loop's branch for an empty value never sees it. The
  result is the same when the row of the empty cell has a further cell beyond the width
  of the header, as the line \<^verbatim>\<open>,x\<close> of a file decodes.
\<close>

theorem scenario_B_result:
  "parseCSVAndExtractEmails [''Contact'']
     [[(''Contact'', Str ''bad'')], [(''Contact'', Str '''')], [(''Contact'', Str ''c@d.com'')]]
     omitted
   = Inr \<lparr>emails = [''c@d.com''], detectedColumn = Some ''Contact'',
          stats = \<lparr>total = 2, valid = 1, invalid = 1, duplicates = 0, empty = 0\<rparr>\<rparr> \<and>
   parseCSVAndExtractEmails [''Contact'']
     [[(''Contact'', Str ''bad'')],
      [(''Contact'', Str ''''), (''__parsed_extra'', Arr [''x''])],
      [(''Contact'', Str ''c@d.com'')]]
     omitted
   = Inr \<lparr>emails = [''c@d.com''], detectedColumn = Some ''Contact'',
          stats = \<lparr>total = 2, valid = 1, invalid = 1, duplicates = 0, empty = 0\<rparr>\<rparr>"
  by code_simp

section \<open>Omitted options\<close>

text \<open>
  The CSV variant with the options omitted is the CSV variant with both options true.
\<close>

lemma parseCSV_omitted:
  "parseCSVAndExtractEmails headers data omitted =
   parseCSVAndExtractEmails headers data \<lparr>removeDuplicates = Some True, removeInvalid = Some True\<rparr>"
  by (simp add: parseCSVAndExtractEmails_def omitted_def withDefault_def)

text \<open>
  Claim C2. The TSV variant with the options omitted is not the TSV variant with both
  options true: it tests \<^verbatim>\<open>options.removeInvalid\<close> and \<^verbatim>\<open>options.removeDuplicates\<close>, which
  are undefined, so it keeps invalid values and duplicates. On a column with the cells
  \<open>bad\<close>, \<open>c@d.com\<close> and \<open>C@D.com\<close> it returns all three normalized values, where with
  both options true it returns the one email.
\<close>

theorem parseTSV_omitted_differs:
  "parseTSVAndExtractEmails [''Contact'']
     [[(''Contact'', Str ''bad'')], [(''Contact'', Str ''c@d.com'')], [(''Contact'', Str ''C@D.com'')]]
     omitted
   = Inr \<lparr>emails = [''bad'', ''c@d.com'', ''c@d.com''], detectedColumn = Some ''Contact'',
          stats = \<lparr>total = 3, valid = 3, invalid = 1, duplicates = 0, empty = 0\<rparr>\<rparr> \<and>
   parseTSVAndExtractEmails [''Contact'']
     [[(''Contact'', Str ''bad'')], [(''Contact'', Str ''c@d.com'')], [(''Contact'', Str ''C@D.com'')]]
     \<lparr>removeDuplicates = Some True, removeInvalid = Some True\<rparr>
   = Inr \<lparr>emails = [''c@d.com''], detectedColumn = Some ''Contact'',
          stats = \<lparr>total = 3, valid = 1, invalid = 1, duplicates = 1, empty = 0\<rparr>\<rparr>"
  by code_simp

end
